theory Spec2Isabelle
  imports Complex_Main
begin

section \<open>The procedure pipeline of \<^verbatim>\<open>src/addons/server/reliverse/trpc.ts\<close>\<close>

text \<open>
  The file builds four procedure variants by stacking middleware steps: a base step
  (context, artificial latency, timing, logging), an authentication step, a board
  ownership step and a caching step. A step receives its \<open>options\<close> (context, input)
  and a continuation \<open>next\<close>; it either calls the continuation or throws a
  \<open>TRPCError\<close>. The framework turns a throw inside a step into the failed result
  \<open>{ok: false, error}\<close> that the enclosing step receives from its own \<open>next\<close>, so a
  result is a sum: \<open>Inl\<close> the error, \<open>Inr\<close> the success payload.
\<close>

subsection \<open>Data\<close>

datatype trpc_code =
  UNAUTHORIZED | FORBIDDEN | INTERNAL_SERVER_ERROR | BAD_REQUEST | NOT_FOUND | CONFLICT

text \<open>\<open>new TRPCError({code, message, cause})\<close>: the code, and the detail when one is given.\<close>

datatype trpc_error = TRPCError (code: trpc_code) (detail: "string option")

datatype json = JNull | JStr string | JNum int | JObj "(string \<times> json) list"

type_synonym data = json

type_synonym result = "trpc_error + data"

record session =
  id_session :: string
  expires :: string

record board =
  id_board :: string
  ownerId :: string
  name :: string

text \<open>The values a context field holds: the \<open>console\<close> logger, a session or \<open>null\<close>, a board.\<close>

datatype val = Logger | User "session option" | Board board

text \<open>A context is a JavaScript object: field names to values; \<open>{...a, ...b}\<close> is \<open>a ++ b\<close>.\<close>

type_synonym ctx = "string \<rightharpoonup> val"

record opts =
  ctx :: ctx
  input :: "json option"
  rawInput :: "json option"

datatype log_record = LogInfo int data | LogError int trpc_error

record cache_entry =
  entry_tags :: "string list"
  entry_value :: data

text \<open>
  The world outside the pipeline, which handlers can reach too. The session-resolution
  collaborator is opaque: \<open>sessions\<close> lists the answers it gives to its successive
  calls. \<open>randoms\<close> does the same for \<open>Math.random()\<close>, \<open>clock\<close> is what \<open>Date.now()\<close>
  reads, \<open>boards\<close> is the table behind \<open>db.query.boards\<close>, \<open>store\<close> the data cache
  behind \<open>unstable_cache\<close>, \<open>console\<close> what has been logged.
\<close>

record world =
  sessions :: "session option list"
  randoms :: "real list"
  clock :: int
  boards :: "board list"
  store :: "string \<rightharpoonup> cache_entry"
  console :: "log_record list"

text \<open>
  What belongs to one request and to the pipeline alone: the memo cell of \<open>cache(...)\<close>
  around \<open>createContext\<close> (the constant is not exported), and three traces: how often the
  memoized function body ran, the timer waits, and the calls of the downstream handler
  with their outcomes.
\<close>

record req =
  memo :: "ctx option"
  executions :: nat
  waits :: "int list"
  calls :: "(opts \<times> result) list"

definition fresh :: req where
  "fresh = \<lparr>memo = None, executions = 0, waits = [], calls = []\<rparr>"

type_synonym state = "req \<times> world"

text \<open>The rest of a chain, seen from one step: what \<open>options.next\<close> runs.\<close>

type_synonym nxt = "opts \<Rightarrow> state \<Rightarrow> result \<times> state"

text \<open>What the user of a variant attaches: further steps and the resolver. It sees the world only.\<close>

type_synonym handler = "opts \<Rightarrow> world \<Rightarrow> result \<times> world"

text \<open>
  What no step changes: \<open>t._config.isDev\<close>, how the cache store derives an entry's key
  from the key parts and the tags it is given, and the rounding of double arithmetic
  (\<open>rounded x\<close> is the double that stands for the exact result \<open>x\<close>).
\<close>

record env =
  isDev :: bool
  cache_key :: "string list \<Rightarrow> string list \<Rightarrow> string"
  rounded :: "real \<Rightarrow> real"

subsection \<open>Collaborators\<close>

text \<open>
  Modelled from the spec: \<open>authjs\<close> (module \<open>~/auth/authjs\<close>), the session-resolution
  collaborator. Each call consumes the next answer; with none left there is no session.
\<close>

definition authjs :: "world \<Rightarrow> session option \<times> world" where
  "authjs w = (case sessions w of [] \<Rightarrow> (None, w) | s # ss \<Rightarrow> (s, w\<lparr>sessions := ss\<rparr>))"

text \<open>\<open>Math.random()\<close>: the next value of the generator, a double in \<open>[0, 1)\<close>.\<close>

definition Math_random :: "world \<Rightarrow> real \<times> world" where
  "Math_random w = (case randoms w of [] \<Rightarrow> (0, w) | x # xs \<Rightarrow> (x, w\<lparr>randoms := xs\<rparr>))"

text \<open>\<open>await new Promise((resolve) => setTimeout(resolve, ms))\<close>: the wait is recorded, the clock moves on.\<close>

definition sleep :: "int \<Rightarrow> state \<Rightarrow> state" where
  "sleep ms = (\<lambda>(r, w). (r\<lparr>waits := waits r @ [ms]\<rparr>, w\<lparr>clock := clock w + ms\<rparr>))"

text \<open>
  Modelled from the spec: \<open>cache\<close> of React, which memoizes once per request: the first
  call runs the function and keeps its result, every later call of the request returns
  the kept result.
\<close>

definition cache :: "(state \<Rightarrow> ctx \<times> state) \<Rightarrow> state \<Rightarrow> ctx \<times> state" where
  "cache f = (\<lambda>(r, w).
     case memo r of
       Some c \<Rightarrow> (c, (r, w))
     | None \<Rightarrow>
         (case f (r, w) of
            (c, (r', w')) \<Rightarrow> (c, (r'\<lparr>memo := Some c, executions := Suc (executions r')\<rparr>, w'))))"

text \<open>
  Modelled from the spec: \<open>db.query.boards.findFirst({where})\<close>, the database query
  collaborator: the first row that passes the filter, if there is one.
\<close>

definition findFirst :: "(board \<Rightarrow> bool) \<Rightarrow> world \<Rightarrow> board option" where
  "findFirst P w = find P (boards w)"

text \<open>
  Modelled from the spec: \<open>unstable_cache(cb, keyParts, {tags})()\<close>, the cache-store
  collaborator, a get-or-compute. A stored entry is returned without running \<open>cb\<close>;
  otherwise \<open>cb\<close> runs, a value it returns is stored with the tags, and what it throws
  passes through with nothing stored.
\<close>

definition unstable_cache ::
  "env \<Rightarrow> (state \<Rightarrow> result \<times> state) \<Rightarrow> string list \<Rightarrow> string list \<Rightarrow> state \<Rightarrow> result \<times> state" where
  "unstable_cache env cb keyParts tags = (\<lambda>(r, w).
     case store w (cache_key env keyParts tags) of
       Some e \<Rightarrow> (Inr (entry_value e), (r, w))
     | None \<Rightarrow>
         (case cb (r, w) of
            (Inl err, s') \<Rightarrow> (Inl err, s')
          | (Inr v, (r', w')) \<Rightarrow>
              (Inr v, (r', w'\<lparr>store := (store w')(cache_key env keyParts tags \<mapsto>
                                   \<lparr>entry_tags = tags, entry_value = v\<rparr>)\<rparr>))))"

text \<open>
  \<open>options.next(nextOpts)\<close> of the framework: the continuation runs on the received
  context with the fields of \<open>nextOpts.ctx\<close> laid over it; without an argument the
  context is passed on as it is.
\<close>

definition call_next :: "nxt \<Rightarrow> opts \<Rightarrow> ctx option \<Rightarrow> state \<Rightarrow> result \<times> state" where
  "call_next nxt options nextCtx =
     nxt (options\<lparr>ctx := (case nextCtx of None \<Rightarrow> ctx options | Some c \<Rightarrow> ctx options ++ c)\<rparr>)"

text \<open>The end of a chain: the handler runs, and the call is recorded with its outcome.\<close>

definition resolve :: "handler \<Rightarrow> nxt" where
  "resolve h options = (\<lambda>(r, w).
     case h options w of (res, w') \<Rightarrow> (res, (r\<lparr>calls := calls r @ [(options, res)]\<rparr>, w')))"

subsection \<open>Context creation\<close>

definition createContext :: "state \<Rightarrow> ctx \<times> state" where
  "createContext = cache (\<lambda>(r, w).
     case authjs w of (session, w') \<Rightarrow> ([''log'' \<mapsto> Logger, ''user'' \<mapsto> User session], (r, w')))"

text \<open>The request calls \<open>createContext\<close> again and again, the world changing in between.\<close>

fun createContext_times :: "(world \<Rightarrow> world) list \<Rightarrow> state \<Rightarrow> ctx list \<times> state" where
  "createContext_times [] s = ([], s)"
| "createContext_times (f # fs) s =
     (case createContext s of
        (c, (r, w)) \<Rightarrow>
          (case createContext_times fs (r, f w) of (cs, s') \<Rightarrow> (c # cs, s')))"

subsection \<open>The base step\<close>

text \<open>
  \<open>Math.floor(Math.random() * 400) + 100\<close>: the product is a double, rounded; its floor
  and the sum are whole numbers far below \<open>2^53\<close>, hence exact.
\<close>

definition waitMs :: "env \<Rightarrow> real \<Rightarrow> int" where
  "waitMs env rnd = \<lfloor>rounded env (rnd * 400)\<rfloor> + 100"

definition log_outcome :: "int \<Rightarrow> result \<Rightarrow> log_record" where
  "log_outcome duration res =
     (case res of Inr d \<Rightarrow> LogInfo duration d | Inl e \<Rightarrow> LogError duration e)"

text \<open>The state in which the base step calls its continuation: context made, delay over.\<close>

definition before_next :: "env \<Rightarrow> state \<Rightarrow> ctx \<times> state" where
  "before_next env s =
     (case createContext s of
        (context, (r1, w1)) \<Rightarrow>
          (context,
           if isDev env
           then (case Math_random w1 of (rnd, w1') \<Rightarrow> sleep (waitMs env rnd) (r1, w1'))
           else (r1, w1)))"

text \<open>
  \<open>const { log } = context\<close> and then \<open>ctx: { ...context, log }\<close>: the field read from the
  context is laid over it again.
\<close>

definition with_log :: "ctx \<Rightarrow> ctx" where
  "with_log context =
     context ++ (case context ''log'' of None \<Rightarrow> Map.empty | Some l \<Rightarrow> [''log'' \<mapsto> l])"

definition baseStep :: "env \<Rightarrow> nxt \<Rightarrow> opts \<Rightarrow> state \<Rightarrow> result \<times> state" where
  "baseStep env nxt options s =
     (case createContext s of
        (context, (r1, w1)) \<Rightarrow>
          (case (if isDev env
                 then (case Math_random w1 of (rnd, w1') \<Rightarrow> sleep (waitMs env rnd) (r1, w1'))
                 else (r1, w1)) of
             (r2, w2) \<Rightarrow>
               (let start = clock w2 in
                case call_next nxt options (Some (with_log context)) (r2, w2) of
                  (res, (r3, w3)) \<Rightarrow>
                    (let duration = clock w3 - start in
                     (res, (r3, w3\<lparr>console := console w3 @ [log_outcome duration res]\<rparr>))))))"

subsection \<open>The authentication step\<close>

definition authStep :: "nxt \<Rightarrow> opts \<Rightarrow> state \<Rightarrow> result \<times> state" where
  "authStep nxt options = (\<lambda>(r, w).
     case authjs w of
       (None, w') \<Rightarrow> (Inl (TRPCError UNAUTHORIZED None), (r, w'))
     | (Some user, w') \<Rightarrow>
         call_next nxt options (Some ((ctx options)(''user'' \<mapsto> User (Some user)))) (r, w'))"

subsection \<open>The board step\<close>

text \<open>\<open>z.object({boardId: z.string()})\<close>: an object with a string \<open>boardId\<close>; other keys are dropped.\<close>

definition parseBoardInput :: "json option \<Rightarrow> json option" where
  "parseBoardInput raw =
     (case raw of
        Some (JObj kvs) \<Rightarrow>
          (case map_of kvs ''boardId'' of
             Some (JStr s) \<Rightarrow> Some (JObj [(''boardId'', JStr s)])
           | _ \<Rightarrow> None)
      | _ \<Rightarrow> None)"

text \<open>
  The step that \<open>.input(schema)\<close> adds: the raw input is parsed; a failure is a
  \<open>BAD_REQUEST\<close>, a success becomes \<open>options.input\<close> (no earlier parser ran in this chain).
\<close>

definition inputStep :: "nxt \<Rightarrow> opts \<Rightarrow> state \<Rightarrow> result \<times> state" where
  "inputStep nxt options s =
     (case parseBoardInput (rawInput options) of
        None \<Rightarrow> (Inl (TRPCError BAD_REQUEST (Some ''ZodError'')), s)
      | Some parsed \<Rightarrow> nxt (options\<lparr>input := Some parsed\<rparr>) s)"

text \<open>\<open>options.ctx.user.id\<close> and \<open>options.input.boardId\<close>; \<open>None\<close> where the read throws a TypeError.\<close>

definition ctx_user_id :: "ctx \<Rightarrow> string option" where
  "ctx_user_id c = (case c ''user'' of Some (User (Some u)) \<Rightarrow> Some (id_session u) | _ \<Rightarrow> None)"

definition input_boardId :: "json option \<Rightarrow> string option" where
  "input_boardId i =
     (case i of
        Some (JObj kvs) \<Rightarrow> (case map_of kvs ''boardId'' of Some (JStr s) \<Rightarrow> Some s | _ \<Rightarrow> None)
      | _ \<Rightarrow> None)"

definition boardStep :: "nxt \<Rightarrow> opts \<Rightarrow> state \<Rightarrow> result \<times> state" where
  "boardStep nxt options = (\<lambda>(r, w).
     case (ctx_user_id (ctx options), input_boardId (input options)) of
       (Some uid, Some boardId) \<Rightarrow>
         (case findFirst (\<lambda>fields. ownerId fields = uid \<and> id_board fields = boardId) w of
            None \<Rightarrow> (Inl (TRPCError FORBIDDEN None), (r, w))
          | Some board \<Rightarrow> call_next nxt options (Some [''board'' \<mapsto> Board board]) (r, w))
     | _ \<Rightarrow> (Inl (TRPCError INTERNAL_SERVER_ERROR (Some ''TypeError'')), (r, w)))"

subsection \<open>The caching step\<close>

definition cacheStep :: "env \<Rightarrow> string \<Rightarrow> nxt \<Rightarrow> opts \<Rightarrow> state \<Rightarrow> result \<times> state" where
  "cacheStep env cacheTag nxt options s =
     (case ctx_user_id (ctx options) of
        None \<Rightarrow> (Inl (TRPCError INTERNAL_SERVER_ERROR (Some ''TypeError'')), s)
      | Some uid \<Rightarrow>
          unstable_cache env
            (\<lambda>s0. case call_next nxt options None s0 of
                    (Inl e, s') \<Rightarrow> (Inl (TRPCError INTERNAL_SERVER_ERROR None), s')
                  | (Inr d, s') \<Rightarrow> (Inr d, s'))
            [uid] [cacheTag] s)"

subsection \<open>The procedure variants\<close>

text \<open>A request enters a variant with its raw input, an empty context and no parsed input.\<close>

definition nextProc :: "env \<Rightarrow> nxt \<Rightarrow> json option \<Rightarrow> state \<Rightarrow> result \<times> state" where
  "nextProc env nxt raw = baseStep env nxt \<lparr>ctx = Map.empty, input = None, rawInput = raw\<rparr>"

definition publicAction :: "env \<Rightarrow> handler \<Rightarrow> json option \<Rightarrow> state \<Rightarrow> result \<times> state" where
  "publicAction env h = nextProc env (resolve h)"

definition protectedAction :: "env \<Rightarrow> nxt \<Rightarrow> json option \<Rightarrow> state \<Rightarrow> result \<times> state" where
  "protectedAction env nxt = nextProc env (authStep nxt)"

definition protectedBoardAction :: "env \<Rightarrow> nxt \<Rightarrow> json option \<Rightarrow> state \<Rightarrow> result \<times> state" where
  "protectedBoardAction env nxt = protectedAction env (inputStep (boardStep nxt))"

definition cachedDataLayer :: "env \<Rightarrow> string \<Rightarrow> nxt \<Rightarrow> json option \<Rightarrow> state \<Rightarrow> result \<times> state" where
  "cachedDataLayer env cacheTag nxt = protectedAction env (cacheStep env cacheTag nxt)"

subsection \<open>Contexts along a chain\<close>

text \<open>
  The context \<open>c'\<close> has every field of \<open>c\<close>, and outside the fields \<open>F\<close> each with the
  value it has in \<open>c\<close>.
\<close>

definition keeps_fields :: "string set \<Rightarrow> ctx \<Rightarrow> ctx \<Rightarrow> bool" where
  "keeps_fields F c c' \<longleftrightarrow> dom c \<subseteq> dom c' \<and> (\<forall>f \<in> dom c - F. c' f = c f)"

subsection \<open>Example requests\<close>

text \<open>A signed-in user, and the same user after the session has been renewed.\<close>

definition alice :: session where
  "alice = \<lparr>id_session = ''u1'', expires = ''2024-06-01''\<rparr>"

definition alice_renewed :: session where
  "alice_renewed = \<lparr>id_session = ''u1'', expires = ''2024-07-01''\<rparr>"

definition roadmap :: board where
  "roadmap = \<lparr>id_board = ''b1'', ownerId = ''u1'', name = ''Roadmap''\<rparr>"

definition backlog :: board where
  "backlog = \<lparr>id_board = ''b2'', ownerId = ''u2'', name = ''Backlog''\<rparr>"

text \<open>
  Both environments key the cache store by the key parts, as Next.js does; the doubles of
  the examples are exact, nothing is rounded.
\<close>

definition env_dev :: env where
  "env_dev =
     \<lparr>isDev = True, cache_key = (\<lambda>keyParts tags. concat keyParts), rounded = (\<lambda>x. x)\<rparr>"

definition env_prod :: env where
  "env_prod =
     \<lparr>isDev = False, cache_key = (\<lambda>keyParts tags. concat keyParts), rounded = (\<lambda>x. x)\<rparr>"

text \<open>A handler that answers with its raw input and takes 7 ms, and one that fails.\<close>

definition echo :: handler where
  "echo options w =
     (Inr (case rawInput options of None \<Rightarrow> JNull | Some j \<Rightarrow> j), w\<lparr>clock := clock w + 7\<rparr>)"

definition failing :: handler where
  "failing options w =
     (Inl (TRPCError NOT_FOUND (Some ''no such row'')), w\<lparr>clock := clock w + 3\<rparr>)"

definition world0 :: "session option list \<Rightarrow> world" where
  "world0 ss =
     \<lparr>sessions = ss, randoms = [1 / 2], clock = 1000, boards = [backlog, roadmap],
      store = Map.empty, console = []\<rparr>"

text \<open>A request during which the session is renewed between the two lookups.\<close>

definition renewed_request :: world where
  "renewed_request = world0 [Some alice, Some alice_renewed]"

text \<open>A request of the same user that finds an entry in the cache store.\<close>

definition cached_request :: world where
  "cached_request =
     (world0 [Some alice, Some alice])\<lparr>store :=
        [''u1'' \<mapsto> \<lparr>entry_tags = [''boards''], entry_value = JStr ''kept''\<rparr>]\<rparr>"

section \<open>Running the steps\<close>

lemma authjs_snd:
  "sessions (snd (authjs w)) = tl (sessions w)" "randoms (snd (authjs w)) = randoms w"
  "clock (snd (authjs w)) = clock w" "boards (snd (authjs w)) = boards w"
  "store (snd (authjs w)) = store w" "console (snd (authjs w)) = console w"
  by (simp_all add: authjs_def split: list.splits)

lemma authjs_fst: "fst (authjs w) = (case sessions w of [] \<Rightarrow> None | s # ss \<Rightarrow> s)"
  by (simp add: authjs_def split: list.splits)

lemma authjs_sessions:
  "sessions w2 = sessions w1 \<Longrightarrow> fst (authjs w2) = fst (authjs w1)"
  by (simp add: authjs_fst)

lemma Math_random_snd:
  "sessions (snd (Math_random w)) = sessions w" "clock (snd (Math_random w)) = clock w"
  "boards (snd (Math_random w)) = boards w" "store (snd (Math_random w)) = store w"
  "console (snd (Math_random w)) = console w"
  by (simp_all add: Math_random_def split: list.splits)

lemma map_add_self: "m ++ m = m"
  by (rule ext) (simp add: map_add_def split: option.splits)

lemma createContext_fresh:
  "memo r = None \<Longrightarrow> createContext (r, w) =
     ([''log'' \<mapsto> Logger, ''user'' \<mapsto> User (fst (authjs w))],
      (r\<lparr>memo := Some [''log'' \<mapsto> Logger, ''user'' \<mapsto> User (fst (authjs w))],
         executions := Suc (executions r)\<rparr>, snd (authjs w)))"
  by (simp add: createContext_def cache_def split: prod.splits)

lemma createContext_memo:
  "memo r = Some c \<Longrightarrow> createContext (r, w) = (c, (r, w))"
  by (simp add: createContext_def cache_def)

lemma with_log_same: "with_log context = context"
  by (rule ext) (simp add: with_log_def map_add_def split: option.splits)

text \<open>The base step is its prefix, the continuation, and one log record.\<close>

lemma baseStep_before_next:
  "before_next env s = (context, (r2, w2)) \<Longrightarrow>
   nxt (options\<lparr>ctx := ctx options ++ context\<rparr>) (r2, w2) = (res, (r3, w3)) \<Longrightarrow>
   baseStep env nxt options s =
     (res, (r3, w3\<lparr>console := console w3 @ [log_outcome (clock w3 - clock w2) res]\<rparr>))"
  by (auto simp: baseStep_def before_next_def call_next_def with_log_same
      split: prod.splits if_splits)

lemma before_next_fresh:
  "before_next env (r, w) = (c, (r2, w2)) \<Longrightarrow> memo r = None \<Longrightarrow>
     c = [''log'' \<mapsto> Logger, ''user'' \<mapsto> User (fst (authjs w))] \<and>
     memo r2 = Some c \<and> executions r2 = Suc (executions r) \<and> calls r2 = calls r \<and>
     waits r2 =
       waits r @ (if isDev env then [waitMs env (fst (Math_random (snd (authjs w))))] else []) \<and>
     sessions w2 = tl (sessions w) \<and> boards w2 = boards w \<and> store w2 = store w \<and>
     console w2 = console w"
  by (auto simp: before_next_def createContext_fresh sleep_def authjs_snd Math_random_snd
      split_def split: if_splits)

lemma nextProc_fresh:
  assumes "memo r = None" and "nextProc env nxt raw (r, w) = (res, (r', w'))"
  obtains r2 w2 w3 where
    "before_next env (r, w) = ([''log'' \<mapsto> Logger, ''user'' \<mapsto> User (fst (authjs w))], (r2, w2))"
    "nxt \<lparr>ctx = [''log'' \<mapsto> Logger, ''user'' \<mapsto> User (fst (authjs w))], input = None,
          rawInput = raw\<rparr> (r2, w2) = (res, (r', w3))"
    "w' = w3\<lparr>console := console w3 @ [log_outcome (clock w3 - clock w2) res]\<rparr>"
proof -
  obtain c r2 w2 where bn: "before_next env (r, w) = (c, (r2, w2))"
    by (metis surj_pair)
  from before_next_fresh [OF bn assms(1)]
  have c: "c = [''log'' \<mapsto> Logger, ''user'' \<mapsto> User (fst (authjs w))]" by simp
  obtain res3 r3 w3 where
    nx: "nxt (\<lparr>ctx = Map.empty, input = None, rawInput = raw\<rparr>\<lparr>ctx :=
           ctx \<lparr>ctx = Map.empty, input = None, rawInput = raw\<rparr> ++ c\<rparr>) (r2, w2) =
         (res3, (r3, w3))"
    by (metis surj_pair)
  from baseStep_before_next
         [where options = "\<lparr>ctx = Map.empty, input = None, rawInput = raw\<rparr>" and nxt = nxt,
          OF bn nx] assms(2)
  have eq: "res = res3" "r' = r3"
    "w' = w3\<lparr>console := console w3 @ [log_outcome (clock w3 - clock w2) res3]\<rparr>"
    by (auto simp: nextProc_def)
  from nx have "nxt \<lparr>ctx = c, input = None, rawInput = raw\<rparr> (r2, w2) = (res3, (r3, w3))"
    by simp
  with that bn c eq show thesis by simp
qed

lemma authStep_cases:
  "authStep nxt options (r, w) =
     (case fst (authjs w) of
        None \<Rightarrow> (Inl (TRPCError UNAUTHORIZED None), (r, snd (authjs w)))
      | Some u \<Rightarrow> nxt (options\<lparr>ctx := (ctx options)(''user'' \<mapsto> User (Some u))\<rparr>) (r, snd (authjs w)))"
  by (simp add: authStep_def call_next_def split_def map_add_self split: option.splits)

lemma resolve_calls:
  "resolve h options (r, w) = (res, (r', w')) \<Longrightarrow>
     r' = r\<lparr>calls := calls r @ [(options, res)]\<rparr> \<and> h options w = (res, w')"
  by (auto simp: resolve_def split: prod.splits)

text \<open>The authenticated variant from a fresh request: either no session at its step, or a user.\<close>

lemma protectedAction_run:
  assumes run: "protectedAction env nxt raw (fresh, w) = (res, (r', w'))"
  obtains (anonymous)
      "fst (authjs (snd (authjs w))) = None" "res = Inl (TRPCError UNAUTHORIZED None)"
      "calls r' = []"
      "memo r' = Some [''log'' \<mapsto> Logger, ''user'' \<mapsto> User (fst (authjs w))]"
  | (user) u r2 w2 w3 where
      "fst (authjs (snd (authjs w))) = Some u"
      "nxt \<lparr>ctx = [''log'' \<mapsto> Logger, ''user'' \<mapsto> User (Some u)], input = None, rawInput = raw\<rparr>
         (r2, w2) = (res, (r', w3))"
      "calls r2 = []"
      "memo r2 = Some [''log'' \<mapsto> Logger, ''user'' \<mapsto> User (fst (authjs w))]"
      "boards w2 = boards w" "store w2 = store w" "store w' = store w3"
proof -
  have fr: "memo fresh = None" by (simp add: fresh_def)
  from run have run': "nextProc env (authStep nxt) raw (fresh, w) = (res, (r', w'))"
    by (simp add: protectedAction_def)
  from fr run' obtain r2 w2 w3 where
    bn: "before_next env (fresh, w) =
           ([''log'' \<mapsto> Logger, ''user'' \<mapsto> User (fst (authjs w))], (r2, w2))" and
    st: "authStep nxt \<lparr>ctx = [''log'' \<mapsto> Logger, ''user'' \<mapsto> User (fst (authjs w))],
           input = None, rawInput = raw\<rparr> (r2, w2) = (res, (r', w3))" and
    w': "w' = w3\<lparr>console := console w3 @ [log_outcome (clock w3 - clock w2) res]\<rparr>"
    by (rule nextProc_fresh)
  from before_next_fresh [OF bn fr]
  have r2: "calls r2 = []" "memo r2 = Some [''log'' \<mapsto> Logger, ''user'' \<mapsto> User (fst (authjs w))]"
    and w2: "sessions w2 = tl (sessions w)" "boards w2 = boards w" "store w2 = store w"
    by (simp_all add: fresh_def)
  have second: "fst (authjs w2) = fst (authjs (snd (authjs w)))"
    by (rule authjs_sessions) (simp add: w2 authjs_snd)
  show thesis
  proof (cases "fst (authjs w2)")
    case None
    with st second r2 show thesis by (intro anonymous) (auto simp: authStep_cases)
  next
    case (Some u)
    with st have "nxt \<lparr>ctx = [''log'' \<mapsto> Logger, ''user'' \<mapsto> User (Some u)],
           input = None, rawInput = raw\<rparr> (r2, snd (authjs w2)) = (res, (r', w3))"
      by (simp add: authStep_cases)
    with Some second r2 w2 w' show thesis
      by (intro user [of u r2 "snd (authjs w2)" w3]) (simp_all add: authjs_snd)
  qed
qed

lemma parseBoardInput_cases:
  "(parseBoardInput raw = None \<and> input_boardId (parseBoardInput raw) = None) \<or>
   (\<exists>s. parseBoardInput raw = Some (JObj [(''boardId'', JStr s)]) \<and>
        input_boardId (parseBoardInput raw) = Some s)"
  by (auto simp: parseBoardInput_def input_boardId_def split: option.splits json.splits)

lemma boardStep_resolve:
  assumes "ctx_user_id (ctx options) = Some uid" and "input_boardId (input options) = Some boardId"
    and "boardStep (resolve h) options (r, w) = (res, (r', w'))"
  shows "case find (\<lambda>b. ownerId b = uid \<and> id_board b = boardId) (boards w) of
           None \<Rightarrow> res = Inl (TRPCError FORBIDDEN None) \<and> r' = r
         | Some b \<Rightarrow>
             r' = r\<lparr>calls := calls r @ [(options\<lparr>ctx := ctx options ++ [''board'' \<mapsto> Board b]\<rparr>, res)]\<rparr>"
  using assms
  by (auto simp: boardStep_def findFirst_def call_next_def resolve_def split: option.splits prod.splits)

lemma cacheStep_resolve:
  assumes "ctx_user_id (ctx options) = Some uid"
    and "cacheStep env cacheTag (resolve h) options (r, w) = (res, (r', w'))"
  shows "case store w (cache_key env [uid] [cacheTag]) of
           Some e \<Rightarrow> res = Inr (entry_value e) \<and> r' = r \<and> w' = w
         | None \<Rightarrow>
             (\<exists>hres. r' = r\<lparr>calls := calls r @ [(options, hres)]\<rparr> \<and>
                (case hres of
                   Inl e \<Rightarrow> res = Inl (TRPCError INTERNAL_SERVER_ERROR None)
                 | Inr d \<Rightarrow> res = Inr d \<and>
                     store w' (cache_key env [uid] [cacheTag]) =
                       Some \<lparr>entry_tags = [cacheTag], entry_value = d\<rparr>))"
  using assms
  by (auto simp: cacheStep_def unstable_cache_def call_next_def resolve_def
      split: option.splits prod.splits sum.splits)

text \<open>The cached variant for a signed-in user: a stored entry, a fresh value, or a failure.\<close>

lemma cachedDataLayer_run:
  assumes run: "cachedDataLayer env cacheTag (resolve h) raw (fresh, w) = (res, (r', w'))"
    and u: "fst (authjs (snd (authjs w))) = Some u"
  obtains (hit) e where
      "store w (cache_key env [id_session u] [cacheTag]) = Some e"
      "res = Inr (entry_value e)" "calls r' = []" "store w' = store w"
  | (stored) options d where
      "store w (cache_key env [id_session u] [cacheTag]) = None"
      "calls r' = [(options, Inr d)]" "res = Inr d"
      "store w' (cache_key env [id_session u] [cacheTag]) =
         Some \<lparr>entry_tags = [cacheTag], entry_value = d\<rparr>"
  | (failed) options e where
      "store w (cache_key env [id_session u] [cacheTag]) = None"
      "calls r' = [(options, Inl e)]" "res = Inl (TRPCError INTERNAL_SERVER_ERROR None)"
proof -
  from run have "protectedAction env (cacheStep env cacheTag (resolve h)) raw (fresh, w) =
      (res, (r', w'))"
    by (simp add: cachedDataLayer_def)
  then show thesis
  proof (cases rule: protectedAction_run)
    case anonymous
    with u show thesis by simp
  next
    case (user u' r2 w2 w3)
    let ?o = "\<lparr>ctx = [''log'' \<mapsto> Logger, ''user'' \<mapsto> User (Some u)], input = None, rawInput = raw\<rparr>"
    let ?k = "cache_key env [id_session u] [cacheTag]"
    from user(1) u have uu: "u' = u" by simp
    have "ctx_user_id (ctx ?o) = Some (id_session u)" by (simp add: ctx_user_id_def)
    from cacheStep_resolve [OF this user(2) [unfolded uu]] user(6)
    have k: "case store w ?k of
           Some e \<Rightarrow> res = Inr (entry_value e) \<and> r' = r2 \<and> w3 = w2
         | None \<Rightarrow>
             (\<exists>hres. r' = r2\<lparr>calls := calls r2 @ [(?o, hres)]\<rparr> \<and>
                (case hres of
                   Inl e \<Rightarrow> res = Inl (TRPCError INTERNAL_SERVER_ERROR None)
                 | Inr d \<Rightarrow> res = Inr d \<and>
                     store w3 ?k = Some \<lparr>entry_tags = [cacheTag], entry_value = d\<rparr>))"
      by simp
    show thesis
    proof (cases "store w ?k")
      case None
      with k obtain hres where
        c: "r' = r2\<lparr>calls := calls r2 @ [(?o, hres)]\<rparr>" and
        h: "case hres of
              Inl e \<Rightarrow> res = Inl (TRPCError INTERNAL_SERVER_ERROR None)
            | Inr d \<Rightarrow> res = Inr d \<and>
                store w3 ?k = Some \<lparr>entry_tags = [cacheTag], entry_value = d\<rparr>"
        by auto
      from c user(3) have cs: "calls r' = [(?o, hres)]" by simp
      show thesis
      proof (cases hres)
        case (Inl e)
        with h cs None show thesis by (intro failed [of ?o e]) simp_all
      next
        case (Inr d)
        with h cs None user(7) show thesis by (intro stored [of ?o d]) simp_all
      qed
    next
      case (Some e)
      with k user show thesis by (intro hit [of e]) simp_all
    qed
  qed
qed

lemma resolve_waits: "waits (fst (snd (resolve h options s))) = waits (fst s)"
  by (simp add: resolve_def split_def)

lemma createContext_times_memo:
  "memo r = Some c \<Longrightarrow> createContext_times fs (r, w) = (cs, (r', w')) \<Longrightarrow>
     r' = r \<and> cs = replicate (length fs) c"
proof (induction fs arbitrary: w cs)
  case Nil
  then show ?case by simp
next
  case (Cons f fs)
  then show ?case
    by (auto simp: createContext_memo split: prod.splits)
qed

lemma createContext_twice: "createContext (snd (createContext s)) = createContext s"
proof (cases s)
  case (Pair r w)
  show ?thesis
  proof (cases "memo r")
    case None
    with Pair show ?thesis by (simp add: createContext_fresh createContext_memo)
  next
    case (Some c)
    with Pair show ?thesis by (simp add: createContext_memo)
  qed
qed

text \<open>
  Rounding to the nearest double keeps a value from 0 to 400 from being negative, and moves
  it by at most the fraction \<open>2^-53\<close> of itself (or, among the subnormal numbers, by
  \<open>2^-1075\<close>).
  The largest double below 1 is \<open>1 - 2^-53\<close>. So the rounded product stays below 400.
\<close>

lemma waitMs_bounds:
  assumes f: "\<forall>x. 0 \<le> x \<and> x \<le> 400 \<longrightarrow>
      0 \<le> rounded env x \<and>
      (\<bar>rounded env x - x\<bar> \<le> x / 2 ^ 53 \<or> \<bar>rounded env x - x\<bar> \<le> 1 / 2 ^ 1075)"
    and r: "0 \<le> r" "r \<le> 1 - 1 / 2 ^ 53"
  shows "100 \<le> waitMs env r \<and> waitMs env r \<le> 499"
proof -
  define e :: real where "e = 1 / 2 ^ 53"
  define t :: real where "t = 1 / 2 ^ 1075"
  define x where "x = r * 400"
  have e: "0 < e" "e < 1" by (simp_all add: e_def)
  have "(2::real) ^ 53 \<le> 2 ^ 1075" by (rule power_increasing) simp_all
  then have t: "t \<le> e" unfolding e_def t_def by (intro divide_left_mono) simp_all
  from r have r': "0 \<le> r" "r \<le> 1 - e" unfolding e_def by blast+
  then have x: "0 \<le> x" "x \<le> 400 * (1 - e)" by (simp_all add: x_def)
  from x e have "x \<le> 400" by simp
  with f x(1) have p0: "0 \<le> rounded env x"
    and near: "\<bar>rounded env x - x\<bar> \<le> x * e \<or> \<bar>rounded env x - x\<bar> \<le> t"
    unfolding e_def t_def by (simp_all del: power_numeral)
  have "rounded env x < 400"
  proof -
    from near show ?thesis
    proof
      assume "\<bar>rounded env x - x\<bar> \<le> x * e"
      then have "rounded env x \<le> x * (1 + e)" by (simp add: algebra_simps)
      also from x e have "x * (1 + e) \<le> (400 * (1 - e)) * (1 + e)"
        by (intro mult_right_mono) simp_all
      also have "(400 * (1 - e)) * (1 + e) = 400 - 400 * (e * e)" by (simp add: algebra_simps)
      also from e have "400 - 400 * (e * e) < 400" by simp
      finally show ?thesis .
    next
      assume "\<bar>rounded env x - x\<bar> \<le> t"
      with t have "rounded env x \<le> x + e" by simp
      also from x have "x + e \<le> 400 * (1 - e) + e" by simp
      also from e have "400 * (1 - e) + e < 400" by simp
      finally show ?thesis .
    qed
  qed
  with p0 have "0 \<le> \<lfloor>rounded env x\<rfloor>" "\<lfloor>rounded env x\<rfloor> < 400"
    by (simp_all add: floor_less_iff)
  then show ?thesis by (simp add: waitMs_def x_def)
qed

lemma Math_random_range:
  "\<forall>x \<in> set (randoms w). 0 \<le> x \<and> x \<le> 1 - 1 / 2 ^ 53 \<Longrightarrow>
     0 \<le> fst (Math_random w) \<and> fst (Math_random w) \<le> 1 - 1 / 2 ^ 53"
  by (auto simp: Math_random_def split: list.splits)

text \<open>What each step does to the context it hands to the handler.\<close>

lemma baseStep_keeps:
  assumes "calls r = []" "memo r = None"
  shows "\<forall>c \<in> set (calls (fst (snd (baseStep env (resolve h) options (r, w))))).
           keeps_fields {''log'', ''user''} (ctx options) (ctx (fst c))"
  using assms
  by (auto simp: baseStep_def createContext_fresh call_next_def resolve_def sleep_def split_def
      keeps_fields_def map_add_def with_log_same)

lemma authStep_keeps:
  assumes "calls r = []"
  shows "\<forall>c \<in> set (calls (fst (snd (authStep (resolve h) options (r, w))))).
           keeps_fields {''user''} (ctx options) (ctx (fst c)) \<and>
           ctx (fst c) ''user'' = Some (User (fst (authjs w)))"
  using assms
  by (auto simp: authStep_cases resolve_def split_def keeps_fields_def split: option.splits)

lemma inputStep_keeps:
  assumes "calls r = []"
  shows "\<forall>c \<in> set (calls (fst (snd (inputStep (resolve h) options (r, w))))).
           keeps_fields {} (ctx options) (ctx (fst c))"
  using assms
  by (auto simp: inputStep_def resolve_def split_def keeps_fields_def split: option.splits)

lemma boardStep_keeps:
  assumes "calls r = []"
  shows "\<forall>c \<in> set (calls (fst (snd (boardStep (resolve h) options (r, w))))).
           keeps_fields {''board''} (ctx options) (ctx (fst c))"
  using assms
  by (auto simp: boardStep_def call_next_def resolve_def split_def keeps_fields_def map_add_def
      split: option.splits)

lemma cacheStep_keeps:
  assumes "calls r = []"
  shows "\<forall>c \<in> set (calls (fst (snd (cacheStep env cacheTag (resolve h) options (r, w))))).
           keeps_fields {} (ctx options) (ctx (fst c))"
  using assms
  by (auto simp: cacheStep_def unstable_cache_def call_next_def resolve_def split_def
      keeps_fields_def split: option.splits sum.splits)

lemmas run_defs =
  protectedAction_def protectedBoardAction_def cachedDataLayer_def publicAction_def nextProc_def
  baseStep_def authStep_def inputStep_def boardStep_def cacheStep_def unstable_cache_def
  call_next_def createContext_def cache_def resolve_def fresh_def sleep_def Math_random_def
  authjs_def waitMs_def log_outcome_def findFirst_def parseBoardInput_def ctx_user_id_def
  input_boardId_def before_next_def with_log_def

lemmas example_defs =
  alice_def alice_renewed_def roadmap_def backlog_def env_dev_def env_prod_def echo_def
  failing_def world0_def renewed_request_def cached_request_def

section \<open>The base step\<close>

text \<open>
  C7. Every variant is \<open>nextProc\<close> around some continuation. Let the base step reach its
  continuation in the state \<open>(r2, w2)\<close> and let the continuation return \<open>res\<close> in the
  state \<open>(r3, w3)\<close>. Then the variant returns \<open>res\<close> unchanged, and the console is the
  console the continuation left plus exactly one record: an info record with the payload
  when \<open>res\<close> is a success, an error record with the error when it is a failure, and in
  both the duration, the clock after the call minus the clock before it.
\<close>

theorem nextProc_logs_outcome:
  assumes "before_next env s = (context, (r2, w2))"
    and "nxt \<lparr>ctx = context, input = None, rawInput = raw\<rparr> (r2, w2) = (res, (r3, w3))"
  shows "nextProc env nxt raw s =
           (res, (r3, w3\<lparr>console := console w3 @
              [case res of Inr d \<Rightarrow> LogInfo (clock w3 - clock w2) d
               | Inl e \<Rightarrow> LogError (clock w3 - clock w2) e]\<rparr>))"
proof -
  from assms(2) have "nxt (\<lparr>ctx = Map.empty, input = None, rawInput = raw\<rparr>\<lparr>ctx :=
      ctx \<lparr>ctx = Map.empty, input = None, rawInput = raw\<rparr> ++ context\<rparr>) (r2, w2) =
      (res, (r3, w3))"
    by simp
  from baseStep_before_next
    [where options = "\<lparr>ctx = Map.empty, input = None, rawInput = raw\<rparr>" and nxt = nxt,
      OF assms(1) this]
  show ?thesis by (simp add: nextProc_def log_outcome_def)
qed

text \<open>A handler that succeeds after 7 ms and one that fails after 3 ms, in development mode.\<close>

theorem nextProc_logs_outcome_witness:
  "console (snd (snd (nextProc env_dev (resolve echo) (Some (JStr ''hi''))
      (fresh, world0 [Some alice])))) = [LogInfo 7 (JStr ''hi'')] \<and>
   fst (nextProc env_dev (resolve echo) (Some (JStr ''hi'')) (fresh, world0 [Some alice])) =
      Inr (JStr ''hi'') \<and>
   console (snd (snd (nextProc env_dev (resolve failing) None (fresh, world0 [Some alice])))) =
      [LogError 3 (TRPCError NOT_FOUND (Some ''no such row''))] \<and>
   fst (nextProc env_dev (resolve failing) None (fresh, world0 [Some alice])) =
      Inl (TRPCError NOT_FOUND (Some ''no such row''))"
proof -
  let ?B = "before_next env_dev (fresh, world0 [Some alice])"
  let ?N = "resolve echo \<lparr>ctx = fst ?B, input = None,
     rawInput = Some (JStr ''hi'')\<rparr> (fst (snd ?B), snd (snd ?B))"
  let ?F = "resolve failing \<lparr>ctx = fst ?B, input = None,
     rawInput = None\<rparr> (fst (snd ?B), snd (snd ?B))"
  have B: "?B = (fst ?B, (fst (snd ?B), snd (snd ?B)))" by simp
  have N: "?N = (fst ?N, (fst (snd ?N), snd (snd ?N)))"
    and F: "?F = (fst ?F, (fst (snd ?F), snd (snd ?F)))"
    by simp_all
  have vals: "fst ?N = Inr (JStr ''hi'')" "clock (snd (snd ?N)) - clock (snd (snd ?B)) = 7"
    "console (snd (snd ?N)) = []"
    "fst ?F = Inl (TRPCError NOT_FOUND (Some ''no such row''))"
    "clock (snd (snd ?F)) - clock (snd (snd ?B)) = 3" "console (snd (snd ?F)) = []"
    by (simp_all add: run_defs example_defs)
  from nextProc_logs_outcome [where nxt = "resolve echo", OF B N]
    nextProc_logs_outcome [where nxt = "resolve failing", OF B F] vals
  show ?thesis by simp
qed

text \<open>
  C8. Let \<open>Math.random()\<close> give doubles in \<open>[0, 1)\<close>, that is at most \<open>1 - 2^-53\<close>, let
  the product be rounded to the nearest double, and let the continuation leave the record
  of timer waits alone (every chain of this file does). A request through \<open>nextProc\<close> then
  has waited, when it ends, exactly as the base step had when it reached its continuation:
  in development mode once, for a whole number of milliseconds between 100 and 499, and
  otherwise not at all.
\<close>

theorem nextProc_delay:
  assumes "\<forall>x. 0 \<le> x \<and> x \<le> 400 \<longrightarrow>
      0 \<le> rounded env x \<and>
      (\<bar>rounded env x - x\<bar> \<le> x / 2 ^ 53 \<or> \<bar>rounded env x - x\<bar> \<le> 1 / 2 ^ 1075)"
    and "\<forall>x \<in> set (randoms w). 0 \<le> x \<and> x \<le> 1 - 1 / 2 ^ 53"
    and "\<forall>options s. waits (fst (snd (nxt options s))) = waits (fst s)"
    and "nextProc env nxt raw (fresh, w) = (res, (r', w'))"
  shows "waits r' = waits (fst (snd (before_next env (fresh, w)))) \<and>
         (if isDev env then \<exists>ms. waits r' = [ms] \<and> 100 \<le> ms \<and> ms \<le> 499 else waits r' = [])"
proof -
  have fr: "memo fresh = None" by (simp add: fresh_def)
  from fr assms(4) obtain r2 w2 w3 where
    bn: "before_next env (fresh, w) =
           ([''log'' \<mapsto> Logger, ''user'' \<mapsto> User (fst (authjs w))], (r2, w2))" and
    st: "nxt \<lparr>ctx = [''log'' \<mapsto> Logger, ''user'' \<mapsto> User (fst (authjs w))],
           input = None, rawInput = raw\<rparr> (r2, w2) = (res, (r', w3))"
    by (rule nextProc_fresh)
  from assms(3) st have same: "waits r' = waits r2"
    by (metis fst_conv snd_conv)
  from before_next_fresh [OF bn fr]
  have w: "waits r2 = (if isDev env then [waitMs env (fst (Math_random (snd (authjs w))))] else [])"
    by (simp add: fresh_def)
  from assms(2) have "\<forall>x \<in> set (randoms (snd (authjs w))). 0 \<le> x \<and> x \<le> 1 - 1 / 2 ^ 53"
    unfolding authjs_snd .
  from Math_random_range [OF this]
  have rng: "0 \<le> fst (Math_random (snd (authjs w)))"
    "fst (Math_random (snd (authjs w))) \<le> 1 - 1 / 2 ^ 53"
    by blast+
  have "100 \<le> waitMs env (fst (Math_random (snd (authjs w)))) \<and>
        waitMs env (fst (Math_random (snd (authjs w)))) \<le> 499"
    using assms(1) rng by (rule waitMs_bounds)
  with same w bn show ?thesis by simp
qed

text \<open>With \<open>Math.random()\<close> giving 0.5: 300 ms in development mode, nothing in production.\<close>

theorem nextProc_delay_witness:
  "set (randoms (world0 [Some alice])) \<subseteq> {0..1 - 1 / 2 ^ 53} \<and>
   waits (fst (snd (nextProc env_dev (resolve echo) None (fresh, world0 [Some alice])))) = [300] \<and>
   waits (fst (snd (nextProc env_prod (resolve echo) None (fresh, world0 [Some alice])))) = []"
proof -
  let ?w = "world0 [Some alice]"
  let ?X = "nextProc env_dev (resolve echo) None (fresh, ?w)"
  let ?Y = "nextProc env_prod (resolve echo) None (fresh, ?w)"
  have X: "?X = (fst ?X, (fst (snd ?X), snd (snd ?X)))"
    and Y: "?Y = (fst ?Y, (fst (snd ?Y), snd (snd ?Y)))"
    by simp_all
  have exact: "\<forall>x. 0 \<le> x \<and> x \<le> 400 \<longrightarrow>
      0 \<le> rounded env_dev x \<and>
      (\<bar>rounded env_dev x - x\<bar> \<le> x / 2 ^ 53 \<or> \<bar>rounded env_dev x - x\<bar> \<le> 1 / 2 ^ 1075)"
    "\<forall>x. 0 \<le> x \<and> x \<le> 400 \<longrightarrow>
      0 \<le> rounded env_prod x \<and>
      (\<bar>rounded env_prod x - x\<bar> \<le> x / 2 ^ 53 \<or> \<bar>rounded env_prod x - x\<bar> \<le> 1 / 2 ^ 1075)"
    by (simp_all add: env_dev_def env_prod_def)
  have rnd: "\<forall>x \<in> set (randoms ?w). 0 \<le> x \<and> x \<le> 1 - 1 / 2 ^ 53" by (simp add: world0_def)
  have keep: "\<forall>options s. waits (fst (snd (resolve echo options s))) = waits (fst s)"
    by (simp add: resolve_waits)
  have b: "waits (fst (snd (before_next env_dev (fresh, ?w)))) = [300]"
    by (simp add: run_defs example_defs)
  have d: "isDev env_dev" "\<not> isDev env_prod" by (simp_all add: env_dev_def env_prod_def)
  from nextProc_delay [OF exact(1) rnd keep X, THEN conjunct1] b
  have "waits (fst (snd ?X)) = [300]" by simp
  moreover from nextProc_delay [OF exact(2) rnd keep Y, THEN conjunct2] d
  have "waits (fst (snd ?Y)) = []" by simp
  moreover have "set (randoms ?w) \<subseteq> {0..1 - 1 / 2 ^ 53}" by (simp add: world0_def)
  ultimately show ?thesis by simp
qed

section \<open>Context creation\<close>

text \<open>
  C5. Within one request, starting fresh, \<open>createContext\<close> is called any number of times,
  the world changing in between. The memoized function body runs at most once, and every
  call returns what the first call returned. In any state, calling again right away changes
  nothing: the second call returns the same context and leaves the state as it is.
\<close>

theorem createContext_memoized:
  assumes "createContext_times fs (fresh, w) = (cs, (r', w'))"
  shows "executions r' \<le> 1 \<and> (\<forall>c \<in> set cs. c = fst (createContext (fresh, w))) \<and>
         createContext (snd (createContext s)) = createContext s"
proof (cases fs)
  case Nil
  with assms show ?thesis by (auto simp: fresh_def createContext_twice)
next
  case (Cons f fs')
  have fr: "memo fresh = None" by (simp add: fresh_def)
  let ?c = "[''log'' \<mapsto> Logger, ''user'' \<mapsto> User (fst (authjs w))]"
  let ?r = "fresh\<lparr>memo := Some ?c, executions := Suc (executions fresh)\<rparr>"
  from assms Cons obtain cs' where
    rest: "createContext_times fs' (?r, f (snd (authjs w))) = (cs', (r', w'))" and
    cs: "cs = ?c # cs'"
    by (auto simp: createContext_fresh [OF fr] split: prod.splits)
  have first: "fst (createContext (fresh, w)) = ?c"
    by (simp add: createContext_fresh [OF fr])
  have once: "executions ?r = 1" by (simp add: fresh_def)
  have "memo ?r = Some ?c" by simp
  from createContext_times_memo [OF this rest] have "r' = ?r" "cs' = replicate (length fs') ?c"
    by simp_all
  with cs first once show ?thesis
    by (simp add: createContext_twice)
qed

text \<open>
  Three calls in a request whose session is gone after the first lookup: all three return
  the context of the first.
\<close>

theorem createContext_memoized_witness:
  "executions (fst (snd (createContext_times [id, (\<lambda>w. w\<lparr>clock := clock w + 5\<rparr>), id]
      (fresh, world0 [Some alice])))) \<le> 1 \<and>
   set (fst (createContext_times [id, (\<lambda>w. w\<lparr>clock := clock w + 5\<rparr>), id]
      (fresh, world0 [Some alice]))) \<subseteq> {fst (createContext (fresh, world0 [Some alice]))} \<and>
   length (fst (createContext_times [id, (\<lambda>w. w\<lparr>clock := clock w + 5\<rparr>), id]
      (fresh, world0 [Some alice]))) = 3 \<and>
   fst (createContext (fresh, world0 [Some alice])) ''user'' = Some (User (Some alice)) \<and>
   fst (authjs (snd (authjs (world0 [Some alice])))) = None"
proof -
  let ?T = "createContext_times [id, (\<lambda>w. w\<lparr>clock := clock w + 5\<rparr>), id]
    (fresh, world0 [Some alice])"
  have T: "?T = (fst ?T, (fst (snd ?T), snd (snd ?T)))" by simp
  have l: "length (fst ?T) = 3" by (simp add: split_def)
  have v: "fst (createContext (fresh, world0 [Some alice])) ''user'' = Some (User (Some alice))"
    "fst (authjs (snd (authjs (world0 [Some alice])))) = None"
    by (simp_all add: run_defs example_defs)
  from createContext_memoized [OF T] have "executions (fst (snd ?T)) \<le> 1"
    "set (fst ?T) \<subseteq> {fst (createContext (fresh, world0 [Some alice]))}"
    by auto
  with l v show ?thesis by simp
qed

section \<open>The authenticated variant\<close>

text \<open>
  C1. A request runs through \<open>protectedAction\<close> from a fresh request state. The
  authentication step asks the session collaborator, which the base step has asked once
  before. When that answer is no session, the variant fails with \<open>UNAUTHORIZED\<close> and the
  downstream handler is never called. When the answer is a session, the step does not
  fail: the handler is called exactly once, with that user in the context it receives,
  and its outcome is the outcome of the variant.
\<close>

theorem protectedAction_auth:
  assumes "protectedAction env (resolve h) raw (fresh, w) = (res, (r', w'))"
  shows "(fst (authjs (snd (authjs w))) = None \<longrightarrow>
      res = Inl (TRPCError UNAUTHORIZED None) \<and> calls r' = []) \<and>
   (\<forall>u. fst (authjs (snd (authjs w))) = Some u \<longrightarrow>
      (\<exists>options. calls r' = [(options, res)] \<and> ctx options ''user'' = Some (User (Some u))))"
  using assms
proof (cases rule: protectedAction_run)
  case anonymous
  then show ?thesis by simp
next
  case (user u r2 w2 w3)
  from resolve_calls [OF user(2)] user(1,3) show ?thesis by auto
qed

text \<open>
  A request whose session is gone by the time the authentication step asks, and a request
  of a signed-in user.
\<close>

theorem protectedAction_auth_witness:
  "(fst (authjs (snd (authjs (world0 [Some alice])))) = None \<and>
    fst (protectedAction env_dev (resolve echo) None (fresh, world0 [Some alice])) =
      Inl (TRPCError UNAUTHORIZED None) \<and>
    calls (fst (snd (protectedAction env_dev (resolve echo) None
      (fresh, world0 [Some alice])))) = []) \<and>
   (fst (authjs (snd (authjs (world0 [Some alice, Some alice])))) = Some alice \<and>
    (\<exists>options.
       calls (fst (snd (protectedAction env_dev (resolve echo) (Some (JStr ''hi''))
         (fresh, world0 [Some alice, Some alice])))) =
         [(options, fst (protectedAction env_dev (resolve echo) (Some (JStr ''hi''))
            (fresh, world0 [Some alice, Some alice])))] \<and>
       ctx options ''user'' = Some (User (Some alice))))"
  using
    protectedAction_auth [of env_dev echo None "world0 [Some alice]"
      "fst (protectedAction env_dev (resolve echo) None (fresh, world0 [Some alice]))"
      "fst (snd (protectedAction env_dev (resolve echo) None (fresh, world0 [Some alice])))"
      "snd (snd (protectedAction env_dev (resolve echo) None (fresh, world0 [Some alice])))"]
    protectedAction_auth [of env_dev echo "Some (JStr ''hi'')" "world0 [Some alice, Some alice]"
      "fst (protectedAction env_dev (resolve echo) (Some (JStr ''hi''))
         (fresh, world0 [Some alice, Some alice]))"
      "fst (snd (protectedAction env_dev (resolve echo) (Some (JStr ''hi''))
         (fresh, world0 [Some alice, Some alice])))"
      "snd (snd (protectedAction env_dev (resolve echo) (Some (JStr ''hi''))
         (fresh, world0 [Some alice, Some alice])))"]
  by (simp add: authjs_def world0_def)

section \<open>The board-scoped variant\<close>

text \<open>
  C2. A request runs through \<open>protectedBoardAction\<close> from a fresh request state. The chain
  stops with \<open>FORBIDDEN\<close>, the handler not called, if and only if the ownership step is
  reached (a user \<open>u\<close> is signed in, the input carries a string \<open>boardId\<close>) and no board of
  the table has both \<open>ownerId\<close> equal to the id of \<open>u\<close> and \<open>id\<close> equal to \<open>boardId\<close>. When
  the lookup finds a board, that board has both, the handler is called exactly once with
  the board in the field \<open>board\<close> of its context, and its outcome is returned.
\<close>

theorem protectedBoardAction_ownership:
  "protectedBoardAction env (resolve h) raw (fresh, w) = (res, (r', w')) \<Longrightarrow>
   ((res = Inl (TRPCError FORBIDDEN None) \<and> calls r' = []) \<longleftrightarrow>
      (\<exists>u boardId. fst (authjs (snd (authjs w))) = Some u \<and>
         input_boardId (parseBoardInput raw) = Some boardId \<and>
         (\<forall>b \<in> set (boards w). \<not> (ownerId b = id_session u \<and> id_board b = boardId)))) \<and>
   (\<forall>u boardId b. fst (authjs (snd (authjs w))) = Some u \<longrightarrow>
      input_boardId (parseBoardInput raw) = Some boardId \<longrightarrow>
      find (\<lambda>b. ownerId b = id_session u \<and> id_board b = boardId) (boards w) = Some b \<longrightarrow>
      ownerId b = id_session u \<and> id_board b = boardId \<and>
      (\<exists>options. calls r' = [(options, res)] \<and> ctx options ''board'' = Some (Board b)))"
proof -
  assume "protectedBoardAction env (resolve h) raw (fresh, w) = (res, (r', w'))"
  then have "protectedAction env (inputStep (boardStep (resolve h))) raw (fresh, w) =
      (res, (r', w'))"
    by (simp add: protectedBoardAction_def)
  then show ?thesis
  proof (cases rule: protectedAction_run)
    case anonymous
    then show ?thesis by auto
  next
    case (user u r2 w2 w3)
    note inp = user(2)
    from parseBoardInput_cases [of raw] show ?thesis
    proof (elim disjE conjE exE)
      assume "parseBoardInput raw = None" "input_boardId (parseBoardInput raw) = None"
      with inp user(1,3) show ?thesis by (auto simp: inputStep_def)
    next
      fix s
      assume p: "parseBoardInput raw = Some (JObj [(''boardId'', JStr s)])"
        and b: "input_boardId (parseBoardInput raw) = Some s"
      let ?o = "\<lparr>ctx = [''log'' \<mapsto> Logger, ''user'' \<mapsto> User (Some u)],
            input = Some (JObj [(''boardId'', JStr s)]), rawInput = raw\<rparr>"
      from inp p have bs: "boardStep (resolve h) ?o (r2, w2) = (res, (r', w3))"
        by (simp add: inputStep_def)
      have "ctx_user_id (ctx ?o) = Some (id_session u)" by (simp add: ctx_user_id_def)
      moreover from b p have "input_boardId (input ?o) = Some s" by simp
      ultimately have
        "case find (\<lambda>b. ownerId b = id_session u \<and> id_board b = s) (boards w2) of
           None \<Rightarrow> res = Inl (TRPCError FORBIDDEN None) \<and> r' = r2
         | Some b \<Rightarrow>
             r' = r2\<lparr>calls := calls r2 @ [(?o\<lparr>ctx := ctx ?o ++ [''board'' \<mapsto> Board b]\<rparr>, res)]\<rparr>"
        using bs by (rule boardStep_resolve)
      then have k: "case find (\<lambda>b. ownerId b = id_session u \<and> id_board b = s) (boards w) of
           None \<Rightarrow> res = Inl (TRPCError FORBIDDEN None) \<and> calls r' = []
         | Some b \<Rightarrow> \<exists>options. calls r' = [(options, res)] \<and> ctx options ''board'' = Some (Board b)"
        by (auto simp: user(3,5) split: option.splits)
      show ?thesis
      proof (cases "find (\<lambda>b. ownerId b = id_session u \<and> id_board b = s) (boards w)")
        case None
        with k user(1) b show ?thesis by (auto simp: find_None_iff)
      next
        case (Some bd)
        from Some have "ownerId bd = id_session u \<and> id_board bd = s \<and> bd \<in> set (boards w)"
          by (auto simp: find_Some_iff)
        with k Some user(1) b show ?thesis by auto
      qed
    qed
  qed
qed

text \<open>The user asks for a board of somebody else, and then for a board of their own.\<close>

theorem protectedBoardAction_ownership_witness:
  "(fst (protectedBoardAction env_prod (resolve echo) (Some (JObj [(''boardId'', JStr ''b2'')]))
          (fresh, world0 [Some alice, Some alice])) = Inl (TRPCError FORBIDDEN None) \<and>
    calls (fst (snd (protectedBoardAction env_prod (resolve echo)
          (Some (JObj [(''boardId'', JStr ''b2'')])) (fresh, world0 [Some alice, Some alice])))) = []) \<and>
   (find (\<lambda>b. ownerId b = id_session alice \<and> id_board b = ''b1'')
       (boards (world0 [Some alice, Some alice])) = Some roadmap \<and>
    (\<exists>options.
       calls (fst (snd (protectedBoardAction env_prod (resolve echo)
          (Some (JObj [(''boardId'', JStr ''b1'')])) (fresh, world0 [Some alice, Some alice])))) =
        [(options, fst (protectedBoardAction env_prod (resolve echo)
          (Some (JObj [(''boardId'', JStr ''b1'')])) (fresh, world0 [Some alice, Some alice])))] \<and>
       ctx options ''board'' = Some (Board roadmap)))"
proof -
  let ?w = "world0 [Some alice, Some alice]"
  let ?X = "protectedBoardAction env_prod (resolve echo)
          (Some (JObj [(''boardId'', JStr ''b2'')])) (fresh, ?w)"
  let ?Y = "protectedBoardAction env_prod (resolve echo)
          (Some (JObj [(''boardId'', JStr ''b1'')])) (fresh, ?w)"
  have u: "fst (authjs (snd (authjs ?w))) = Some alice"
    by (simp add: authjs_def world0_def)
  have b2: "input_boardId (parseBoardInput (Some (JObj [(''boardId'', JStr ''b2'')]))) = Some ''b2''"
    and b1: "input_boardId (parseBoardInput (Some (JObj [(''boardId'', JStr ''b1'')]))) = Some ''b1''"
    by (simp_all add: input_boardId_def parseBoardInput_def)
  have none: "\<forall>b \<in> set (boards ?w). \<not> (ownerId b = id_session alice \<and> id_board b = ''b2'')"
    by (simp add: example_defs)
  have found: "find (\<lambda>b. ownerId b = id_session alice \<and> id_board b = ''b1'') (boards ?w) =
      Some roadmap"
    by (simp add: example_defs)
  have X: "?X = (fst ?X, (fst (snd ?X), snd (snd ?X)))"
    and Y: "?Y = (fst ?Y, (fst (snd ?Y), snd (snd ?Y)))"
    by simp_all
  from protectedBoardAction_ownership [OF X, THEN conjunct1] u b2 none
  have "fst ?X = Inl (TRPCError FORBIDDEN None) \<and> calls (fst (snd ?X)) = []"
    by blast
  moreover from protectedBoardAction_ownership [OF Y, THEN conjunct2, rule_format, OF u b1 found]
  have "\<exists>options. calls (fst (snd ?Y)) = [(options, fst ?Y)] \<and>
      ctx options ''board'' = Some (Board roadmap)"
    by simp
  ultimately show ?thesis using found by simp
qed

section \<open>The cached variant\<close>

text \<open>
  C3. A signed-in user \<open>u\<close> calls \<open>cachedDataLayer cacheTag\<close> from a fresh request state.
  On a miss (the store has no entry under the key of that user and tag) the downstream
  handler is called exactly once; the variant succeeds exactly when the handler does, with
  the same value, and that value is in the store afterwards, under that key and with the
  declared tag. On a hit the handler is
  not called and the result is the stored value.
\<close>

theorem cachedDataLayer_miss_hit:
  assumes "cachedDataLayer env cacheTag (resolve h) raw (fresh, w) = (res, (r', w'))"
    and "fst (authjs (snd (authjs w))) = Some u"
  shows "(store w (cache_key env [id_session u] [cacheTag]) = None \<longrightarrow>
            (\<exists>options hres. calls r' = [(options, hres)] \<and>
               (\<forall>d. hres = Inr d \<longleftrightarrow> res = Inr d) \<and>
               (\<forall>d. res = Inr d \<longrightarrow>
                  store w' (cache_key env [id_session u] [cacheTag]) =
                    Some \<lparr>entry_tags = [cacheTag], entry_value = d\<rparr>))) \<and>
         (\<forall>e. store w (cache_key env [id_session u] [cacheTag]) = Some e \<longrightarrow>
            calls r' = [] \<and> res = Inr (entry_value e))"
  using assms by (cases rule: cachedDataLayer_run) auto

text \<open>A first request, which misses and stores, and a request that finds an entry.\<close>

theorem cachedDataLayer_miss_hit_witness:
  "(store (world0 [Some alice, Some alice]) (cache_key env_prod [id_session alice] [''boards'']) = None \<and>
    fst (cachedDataLayer env_prod ''boards'' (resolve echo) (Some (JStr ''q''))
       (fresh, world0 [Some alice, Some alice])) = Inr (JStr ''q'') \<and>
    store (snd (snd (cachedDataLayer env_prod ''boards'' (resolve echo) (Some (JStr ''q''))
       (fresh, world0 [Some alice, Some alice])))) (cache_key env_prod [id_session alice] [''boards'']) =
      Some \<lparr>entry_tags = [''boards''], entry_value = JStr ''q''\<rparr>) \<and>
   (store cached_request (cache_key env_prod [id_session alice] [''boards'']) =
      Some \<lparr>entry_tags = [''boards''], entry_value = JStr ''kept''\<rparr> \<and>
    calls (fst (snd (cachedDataLayer env_prod ''boards'' (resolve echo) (Some (JStr ''q''))
       (fresh, cached_request)))) = [] \<and>
    fst (cachedDataLayer env_prod ''boards'' (resolve echo) (Some (JStr ''q''))
       (fresh, cached_request)) = Inr (JStr ''kept''))"
proof -
  let ?w = "world0 [Some alice, Some alice]"
  let ?k = "cache_key env_prod [id_session alice] [''boards'']"
  let ?X = "cachedDataLayer env_prod ''boards'' (resolve echo) (Some (JStr ''q'')) (fresh, ?w)"
  let ?Y = "cachedDataLayer env_prod ''boards'' (resolve echo) (Some (JStr ''q''))
     (fresh, cached_request)"
  have u: "fst (authjs (snd (authjs ?w))) = Some alice"
    and u': "fst (authjs (snd (authjs cached_request))) = Some alice"
    by (simp_all add: authjs_def world0_def cached_request_def)
  have miss: "store ?w ?k = None"
    and hit: "store cached_request ?k =
      Some \<lparr>entry_tags = [''boards''], entry_value = JStr ''kept''\<rparr>"
    by (simp_all add: example_defs)
  have X: "?X = (fst ?X, (fst (snd ?X), snd (snd ?X)))"
    and Y: "?Y = (fst ?Y, (fst (snd ?Y), snd (snd ?Y)))"
    by simp_all
  have val: "fst ?X = Inr (JStr ''q'')"
    by (simp add: run_defs example_defs)
  from cachedDataLayer_miss_hit [OF X u, THEN conjunct1, rule_format, OF miss] val
  have "store (snd (snd ?X)) ?k = Some \<lparr>entry_tags = [''boards''], entry_value = JStr ''q''\<rparr>"
    by blast
  moreover from cachedDataLayer_miss_hit [OF Y u', THEN conjunct2, rule_format, OF hit]
  have "calls (fst (snd ?Y)) = [] \<and> fst ?Y = Inr (JStr ''kept'')"
    by simp
  ultimately show ?thesis using miss hit val by simp
qed

text \<open>
  C4. Whenever the downstream handler of the cached variant has been called and has
  failed, with whatever error \<open>e\<close>, the caller gets \<open>INTERNAL_SERVER_ERROR\<close> with no
  detail: neither the code nor the detail of \<open>e\<close> is in the result.
\<close>

theorem cachedDataLayer_failure_internal:
  assumes "cachedDataLayer env cacheTag (resolve h) raw (fresh, w) = (res, (r', w'))"
    and "(options, Inl e) \<in> set (calls r')"
  shows "res = Inl (TRPCError INTERNAL_SERVER_ERROR None)"
proof -
  from assms(1) have "protectedAction env (cacheStep env cacheTag (resolve h)) raw (fresh, w) =
      (res, (r', w'))"
    by (simp add: cachedDataLayer_def)
  then show ?thesis
  proof (cases rule: protectedAction_run)
    case anonymous
    with assms(2) show ?thesis by simp
  next
    case (user u r2 w2 w3)
    from assms(1) user(1) assms(2) show ?thesis
      by (cases rule: cachedDataLayer_run) auto
  qed
qed

text \<open>The handler fails with \<open>NOT_FOUND\<close> and a message; the caller sees neither.\<close>

theorem cachedDataLayer_failure_internal_witness:
  "(fst (hd (calls (fst (snd (cachedDataLayer env_prod ''boards'' (resolve failing) None
       (fresh, world0 [Some alice, Some alice])))))),
     Inl (TRPCError NOT_FOUND (Some ''no such row''))) \<in>
     set (calls (fst (snd (cachedDataLayer env_prod ''boards'' (resolve failing) None
       (fresh, world0 [Some alice, Some alice]))))) \<and>
   fst (cachedDataLayer env_prod ''boards'' (resolve failing) None
       (fresh, world0 [Some alice, Some alice])) = Inl (TRPCError INTERNAL_SERVER_ERROR None)"
proof -
  let ?X = "cachedDataLayer env_prod ''boards'' (resolve failing) None
       (fresh, world0 [Some alice, Some alice])"
  have X: "?X = (fst ?X, (fst (snd ?X), snd (snd ?X)))" by simp
  have m: "(fst (hd (calls (fst (snd ?X)))), Inl (TRPCError NOT_FOUND (Some ''no such row''))) \<in>
     set (calls (fst (snd ?X)))"
    by (simp add: run_defs example_defs)
  from cachedDataLayer_failure_internal [OF X m] m show ?thesis by simp
qed

text \<open>
  C9. The key parts handed to the cache store are the user id alone, next to the tag; the
  input is not among them. So when a request of a user under a tag has succeeded with
  \<open>d\<close>, the store holds \<open>d\<close> under the key of that user id and tag, and the next request
  of that user under that tag returns \<open>d\<close> without calling the handler, whatever the two
  inputs (and the two handlers) are.
\<close>

theorem cachedDataLayer_ignores_input:
  assumes "cachedDataLayer env cacheTag (resolve h1) raw1 (fresh, w) = (Inr d, (r1, w1))"
    and "fst (authjs (snd (authjs w))) = Some u1"
    and "cachedDataLayer env cacheTag (resolve h2) raw2 (fresh, w1) = (res2, (r2, w2))"
    and "fst (authjs (snd (authjs w1))) = Some u2"
    and "id_session u2 = id_session u1"
  shows "(\<exists>e. store w1 (cache_key env [id_session u1] [cacheTag]) = Some e \<and> entry_value e = d) \<and>
         res2 = Inr d \<and> calls r2 = []"
proof -
  from assms(1,2)
  have kept: "\<exists>e. store w1 (cache_key env [id_session u1] [cacheTag]) = Some e \<and> entry_value e = d"
    by (cases rule: cachedDataLayer_run) auto
  with assms(3,4,5) have "res2 = Inr d \<and> calls r2 = []"
    by (cases rule: cachedDataLayer_run) auto
  with kept show ?thesis by simp
qed

text \<open>
  Two requests of one user under the tag \<open>boards\<close>, with the inputs \<open>first\<close> and \<open>second\<close>
  and a handler that answers with its input: the second request gets \<open>first\<close>.
\<close>

theorem cachedDataLayer_ignores_input_witness:
  "fst (cachedDataLayer env_prod ''boards'' (resolve echo) (Some (JStr ''first''))
       (fresh, world0 [Some alice, Some alice, Some alice_renewed, Some alice_renewed])) =
     Inr (JStr ''first'') \<and>
   id_session alice_renewed = id_session alice \<and>
   Some (JStr ''second'') \<noteq> Some (JStr ''first'') \<and>
   fst (cachedDataLayer env_prod ''boards'' (resolve echo) (Some (JStr ''second''))
       (fresh, snd (snd (cachedDataLayer env_prod ''boards'' (resolve echo) (Some (JStr ''first''))
       (fresh, world0 [Some alice, Some alice, Some alice_renewed, Some alice_renewed]))))) =
     Inr (JStr ''first'') \<and>
   calls (fst (snd (cachedDataLayer env_prod ''boards'' (resolve echo) (Some (JStr ''second''))
       (fresh, snd (snd (cachedDataLayer env_prod ''boards'' (resolve echo) (Some (JStr ''first''))
       (fresh, world0 [Some alice, Some alice, Some alice_renewed, Some alice_renewed]))))))) = []"
proof -
  let ?w = "world0 [Some alice, Some alice, Some alice_renewed, Some alice_renewed]"
  let ?X = "cachedDataLayer env_prod ''boards'' (resolve echo) (Some (JStr ''first'')) (fresh, ?w)"
  let ?Y = "cachedDataLayer env_prod ''boards'' (resolve echo) (Some (JStr ''second''))
     (fresh, snd (snd ?X))"
  have val: "fst ?X = Inr (JStr ''first'')"
    by (simp add: run_defs example_defs)
  then have X: "?X = (Inr (JStr ''first''), (fst (snd ?X), snd (snd ?X)))"
    by (metis prod.collapse)
  have Y: "?Y = (fst ?Y, (fst (snd ?Y), snd (snd ?Y)))" by simp
  have u1: "fst (authjs (snd (authjs ?w))) = Some alice"
    by (simp add: authjs_def world0_def)
  have "sessions (snd (snd ?X)) = [Some alice_renewed, Some alice_renewed]"
    by (simp add: run_defs example_defs)
  then have u2: "fst (authjs (snd (authjs (snd (snd ?X))))) = Some alice_renewed"
    by (simp add: authjs_fst authjs_snd)
  have same: "id_session alice_renewed = id_session alice"
    by (simp add: alice_def alice_renewed_def)
  from cachedDataLayer_ignores_input [OF X u1 Y u2 same] val same show ?thesis by simp
qed

section \<open>The session of the authenticated variant\<close>

text \<open>
  C10, as amended. The authentication step calls the session collaborator itself; it
  neither reads the user of the base context nor goes through the memoized
  \<open>createContext\<close>. The base context keeps the answer to the first call of the request,
  the context handed downstream has the answer to the second, and the two are equal
  exactly when the collaborator gives the same answer twice.
\<close>

theorem protectedAction_user_second_lookup:
  assumes "protectedAction env (resolve h) raw (fresh, w) = (res, (r', w'))"
    and "fst (authjs (snd (authjs w))) = Some u"
  shows "\<exists>c options. memo r' = Some c \<and> c ''user'' = Some (User (fst (authjs w))) \<and>
           calls r' = [(options, res)] \<and> ctx options ''user'' = Some (User (Some u)) \<and>
           (ctx options ''user'' = c ''user'' \<longleftrightarrow> fst (authjs w) = fst (authjs (snd (authjs w))))"
  using assms(1)
proof (cases rule: protectedAction_run)
  case anonymous
  with assms(2) show ?thesis by simp
next
  case (user u' r2 w2 w3)
  from resolve_calls [OF user(2)] user assms(2) show ?thesis by auto
qed

text \<open>The session is renewed between the two lookups of the request.\<close>

theorem protectedAction_user_second_lookup_witness:
  "fst (authjs (snd (authjs renewed_request))) = Some alice_renewed \<and>
   (\<exists>c options.
      memo (fst (snd (protectedAction env_prod (resolve echo) None (fresh, renewed_request)))) =
        Some c \<and>
      c ''user'' = Some (User (Some alice)) \<and>
      calls (fst (snd (protectedAction env_prod (resolve echo) None (fresh, renewed_request)))) =
        [(options, fst (protectedAction env_prod (resolve echo) None (fresh, renewed_request)))] \<and>
      ctx options ''user'' = Some (User (Some alice_renewed)))"
proof -
  let ?X = "protectedAction env_prod (resolve echo) None (fresh, renewed_request)"
  have X: "?X = (fst ?X, (fst (snd ?X), snd (snd ?X)))" by simp
  have u: "fst (authjs (snd (authjs renewed_request))) = Some alice_renewed"
    and u0: "fst (authjs renewed_request) = Some alice"
    by (simp_all add: authjs_def world0_def renewed_request_def)
  from protectedAction_user_second_lookup [OF X u] u u0 show ?thesis by auto
qed

text \<open>
  C10 as stated fails on that request: the base step has stored the session of the first
  lookup in its context (the memoized one), and the authenticated variant hands the
  renewed session of the second lookup downstream.
\<close>

theorem protectedAction_user_differs:
  "the (memo (fst (snd (protectedAction env_prod (resolve echo) None (fresh, renewed_request)))))
     ''user'' = Some (User (Some alice)) \<and>
   ctx (fst (hd (calls (fst (snd (protectedAction env_prod (resolve echo) None
     (fresh, renewed_request))))))) ''user'' = Some (User (Some alice_renewed)) \<and>
   alice_renewed \<noteq> alice"
  by (simp add: run_defs example_defs)

section \<open>Contexts along a chain\<close>

text \<open>
  C6, as amended. Take any step of the file, with the handler as its continuation and no
  call recorded yet. If the step calls the handler, the context it hands over has every
  field of the context it received, and every field the step does not set itself keeps
  its value. The base step (from a fresh memo) sets \<open>log\<close> and \<open>user\<close>; the
  authentication step sets \<open>user\<close>, to the session it has just resolved, over the value
  the base step put there; the board step sets \<open>board\<close> (it passes that field alone and
  the framework lays it over the received context); the input step and the caching step
  set nothing.
\<close>

theorem steps_keep_fields:
  assumes "calls r = []"
  shows "(memo r = None \<longrightarrow>
           (\<forall>c \<in> set (calls (fst (snd (baseStep env (resolve h) options (r, w))))).
              keeps_fields {''log'', ''user''} (ctx options) (ctx (fst c)))) \<and>
         (\<forall>c \<in> set (calls (fst (snd (authStep (resolve h) options (r, w))))).
            keeps_fields {''user''} (ctx options) (ctx (fst c)) \<and>
            ctx (fst c) ''user'' = Some (User (fst (authjs w)))) \<and>
         (\<forall>c \<in> set (calls (fst (snd (inputStep (resolve h) options (r, w))))).
            keeps_fields {} (ctx options) (ctx (fst c))) \<and>
         (\<forall>c \<in> set (calls (fst (snd (boardStep (resolve h) options (r, w))))).
            keeps_fields {''board''} (ctx options) (ctx (fst c))) \<and>
         (\<forall>c \<in> set (calls (fst (snd (cacheStep env cacheTag (resolve h) options (r, w))))).
            keeps_fields {} (ctx options) (ctx (fst c)))"
proof (intro conjI impI)
  assume "memo r = None"
  with assms show "\<forall>c \<in> set (calls (fst (snd (baseStep env (resolve h) options (r, w))))).
      keeps_fields {''log'', ''user''} (ctx options) (ctx (fst c))"
    by (rule baseStep_keeps)
next
  from assms show "\<forall>c \<in> set (calls (fst (snd (authStep (resolve h) options (r, w))))).
      keeps_fields {''user''} (ctx options) (ctx (fst c)) \<and>
      ctx (fst c) ''user'' = Some (User (fst (authjs w)))"
    by (rule authStep_keeps)
next
  from assms show "\<forall>c \<in> set (calls (fst (snd (inputStep (resolve h) options (r, w))))).
      keeps_fields {} (ctx options) (ctx (fst c))"
    by (rule inputStep_keeps)
next
  from assms show "\<forall>c \<in> set (calls (fst (snd (boardStep (resolve h) options (r, w))))).
      keeps_fields {''board''} (ctx options) (ctx (fst c))"
    by (rule boardStep_keeps)
next
  from assms show "\<forall>c \<in> set (calls (fst (snd (cacheStep env cacheTag (resolve h) options (r, w))))).
      keeps_fields {} (ctx options) (ctx (fst c))"
    by (rule cacheStep_keeps)
qed

text \<open>The authentication step on a context with a user, the session renewed since: \<open>log\<close> stays.\<close>

theorem steps_keep_fields_witness:
  "calls fresh = [] \<and>
   keeps_fields {''user''} [''log'' \<mapsto> Logger, ''user'' \<mapsto> User (Some alice)]
     (ctx (fst (hd (calls (fst (snd (authStep (resolve echo)
        \<lparr>ctx = [''log'' \<mapsto> Logger, ''user'' \<mapsto> User (Some alice)], input = None, rawInput = None\<rparr>
        (fresh, world0 [Some alice_renewed])))))))) \<and>
   ctx (fst (hd (calls (fst (snd (authStep (resolve echo)
        \<lparr>ctx = [''log'' \<mapsto> Logger, ''user'' \<mapsto> User (Some alice)], input = None, rawInput = None\<rparr>
        (fresh, world0 [Some alice_renewed]))))))) ''user'' = Some (User (Some alice_renewed)) \<and>
   ctx (fst (hd (calls (fst (snd (authStep (resolve echo)
        \<lparr>ctx = [''log'' \<mapsto> Logger, ''user'' \<mapsto> User (Some alice)], input = None, rawInput = None\<rparr>
        (fresh, world0 [Some alice_renewed]))))))) ''log'' = Some Logger"
proof -
  let ?o = "\<lparr>ctx = [''log'' \<mapsto> Logger, ''user'' \<mapsto> User (Some alice)], input = None,
    rawInput = None\<rparr>"
  let ?R = "fst (snd (authStep (resolve echo) ?o (fresh, world0 [Some alice_renewed])))"
  have f: "calls fresh = []" by (simp add: fresh_def)
  have "length (calls ?R) = 1" by (simp add: run_defs example_defs)
  then have m: "hd (calls ?R) \<in> set (calls ?R)" by (cases "calls ?R") simp_all
  have a: "fst (authjs (world0 [Some alice_renewed])) = Some alice_renewed"
    by (simp add: authjs_def world0_def)
  from steps_keep_fields [OF f, of env_prod echo ?o "world0 [Some alice_renewed]",
      THEN conjunct2, THEN conjunct1, rule_format, OF m] a
  have k: "keeps_fields {''user''} (ctx ?o) (ctx (fst (hd (calls ?R))))"
    "ctx (fst (hd (calls ?R))) ''user'' = Some (User (Some alice_renewed))"
    by simp_all
  from k(1) have "ctx (fst (hd (calls ?R))) ''log'' = Some Logger"
    by (simp add: keeps_fields_def)
  with k f show ?thesis by simp
qed

text \<open>
  C6 as stated fails at the authentication step of that request: the context the base
  step hands over has the user of the first lookup, the context the authentication step
  hands on has the renewed one, so a field that was present has changed.
\<close>

theorem authStep_changes_user:
  "fst (before_next env_prod (fresh, renewed_request)) ''user'' = Some (User (Some alice)) \<and>
   ctx (fst (hd (calls (fst (snd (authStep (resolve echo)
     \<lparr>ctx = fst (before_next env_prod (fresh, renewed_request)), input = None, rawInput = None\<rparr>
     (snd (before_next env_prod (fresh, renewed_request)))))))))
     ''user'' = Some (User (Some alice_renewed)) \<and>
   \<not> keeps_fields {} (fst (before_next env_prod (fresh, renewed_request)))
     (ctx (fst (hd (calls (fst (snd (authStep (resolve echo)
     \<lparr>ctx = fst (before_next env_prod (fresh, renewed_request)), input = None, rawInput = None\<rparr>
     (snd (before_next env_prod (fresh, renewed_request))))))))))"
  by (simp add: run_defs example_defs keeps_fields_def)

end
